theory Spec2Isabelle
  imports Main "HOL-Library.Sublist" "HOL-Library.Multiset" "HOL-Library.Product_Lexorder"
    "HOL-Library.Option_ord"
begin

section \<open>Strings\<close>

text \<open>
  A Python \<open>str\<close> is modelled by \<open>string\<close>; one \<open>char\<close> stands for one code point, so
  the model covers the code points below 256. \<open>is_space\<close> is \<open>str.isspace\<close> and
  \<open>lower_char\<close> is \<open>str.lower\<close> on that range.
\<close>

definition is_space :: "char \<Rightarrow> bool" where
  "is_space c =
     (let n = (of_char c :: nat)
      in (9 \<le> n \<and> n \<le> 13) \<or> (28 \<le> n \<and> n \<le> 32) \<or> n = 133 \<or> n = 160)"

definition strip :: "string \<Rightarrow> string" where
  "strip s = rev (dropWhile is_space (rev (dropWhile is_space s)))"

definition lower_char :: "char \<Rightarrow> char" where
  "lower_char c =
     (let n = (of_char c :: nat)
      in if (65 \<le> n \<and> n \<le> 90) \<or> (192 \<le> n \<and> n \<le> 222 \<and> n \<noteq> 215)
         then char_of (n + 32) else c)"

definition lower :: "string \<Rightarrow> string" where
  "lower s = map lower_char s"

text \<open>\<open>py_in kw s\<close> is the substring test \<open>kw in s\<close>, scanning \<open>s\<close> from the left.\<close>

fun py_in :: "string \<Rightarrow> string \<Rightarrow> bool" where
  "py_in kw [] = (kw = [])"
| "py_in kw (c # cs) = (prefix kw (c # cs) \<or> py_in kw cs)"

section \<open>News filter\<close>

record article =
  title :: string
  link :: string
  summary :: string
  published :: string

definition teaser_keywords :: "string list" where
  "teaser_keywords = [''vote'', ''voting'', ''check back'', ''countdown'', ''announcement'']"

definition is_valid_news :: "article \<Rightarrow> bool" where
  "is_valid_news a =
     (let content = lower (title a @ '' '' @ summary a)
      in if list_ex (\<lambda>kw. py_in kw content) teaser_keywords then False
         else if length (strip (summary a)) = 0 \<and> length (strip (title a)) = 0 then False
         else True)"

text \<open>
  The rejection rule in the words of the specification: some blocklisted keyword occurs
  somewhere in the lower-cased title and summary, or both consist of whitespace only.
\<close>

definition blocklisted :: "article \<Rightarrow> bool" where
  "blocklisted a =
     (\<exists>kw \<in> {''vote'', ''voting'', ''check back'', ''countdown'', ''announcement''}.
        \<exists>before after. lower (title a @ '' '' @ summary a) = before @ kw @ after)"

definition blank :: "string \<Rightarrow> bool" where
  "blank s = (\<forall>c \<in> set s. is_space c)"

definition rejected_spec :: "article \<Rightarrow> bool" where
  "rejected_spec a = (blocklisted a \<or> (blank (title a) \<and> blank (summary a)))"

text \<open>
  The sidebar loop over \<open>news_list\<close>. The state is the list \<open>filtered\<close>, the set \<open>seen\<close>
  and the number of articles taken from the input so far; the result is \<open>filtered\<close>
  together with that number when the loop ends, by exhaustion or by \<open>break\<close>.
\<close>

fun news_loop :: "article list \<Rightarrow> article list \<Rightarrow> string set \<Rightarrow> nat \<Rightarrow> article list \<times> nat" where
  "news_loop [] filtered seen k = (filtered, k)"
| "news_loop (a # rest) filtered seen k =
     (if \<not> is_valid_news a then news_loop rest filtered seen (Suc k)
      else
        let filtered' = (if link a \<notin> seen then filtered @ [a] else filtered);
            seen' = (if link a \<notin> seen then insert (link a) seen else seen)
        in if length filtered' \<ge> 3 then (filtered', Suc k)
           else news_loop rest filtered' seen' (Suc k))"

definition filter_news :: "article list \<Rightarrow> article list" where
  "filter_news news_list = fst (news_loop news_list [] {} 0)"

definition consumed :: "article list \<Rightarrow> nat" where
  "consumed news_list = snd (news_loop news_list [] {} 0)"

text \<open>
  Keeping the first occurrence of every link, in the words of the specification: an
  article stays when its link has not occurred before it.
\<close>

fun first_by_link :: "string set \<Rightarrow> article list \<Rightarrow> article list" where
  "first_by_link seen [] = []"
| "first_by_link seen (a # rest) =
     (if link a \<in> seen then first_by_link seen rest
      else a # first_by_link (insert (link a) seen) rest)"

section \<open>Errors and text of numbers\<close>

text \<open>
  Every exception the modelled code can meet is a value of \<open>error\<close>; a computation that may
  raise returns \<open>error + 'a\<close>, with \<open>Inl\<close> for the exception. \<open>try_bind\<close> runs the next
  step unless the previous one raised.
\<close>

datatype error = KeyError | TypeError | ValueError | ParserError | OtherError string

definition try_bind :: "error + 'a \<Rightarrow> ('a \<Rightarrow> error + 'b) \<Rightarrow> error + 'b" where
  "try_bind m f = (case m of Inl e \<Rightarrow> Inl e | Inr x \<Rightarrow> f x)"

definition digit_char :: "nat \<Rightarrow> char" where
  "digit_char n = ''0123456789'' ! n"

fun str_nat :: "nat \<Rightarrow> string" where
  "str_nat n = (if n < 10 then [digit_char n] else str_nat (n div 10) @ [digit_char (n mod 10)])"

declare str_nat.simps [simp del]

text \<open>\<open>str_int\<close> is \<open>str\<close> on an integer: its decimal digits, after a minus sign if negative.\<close>

definition str_int :: "int \<Rightarrow> string" where
  "str_int i = (if i < 0 then CHR ''-'' # str_nat (nat (- i)) else str_nat (nat i))"

text \<open>\<open>zfill w s\<close> pads \<open>s\<close> with zeros on the left to width \<open>w\<close>, as \<open>%m\<close>, \<open>%d\<close>, \<open>%H\<close>, \<open>%M\<close>
  (width 2) and \<open>%Y\<close> (width 4) do.\<close>

definition zfill :: "nat \<Rightarrow> string \<Rightarrow> string" where
  "zfill w s = replicate (w - length s) (CHR ''0'') @ s"

section \<open>Name resolution\<close>

text \<open>
  \<open>playerid_reverse_lookup\<close> is an external register; the model takes it as a parameter
  \<open>lookup\<close> that returns a table or raises. A table gives, for a column label, the cells
  of that column in row order; a cell is a text or a missing value (NaN).
\<close>

datatype cell = Str string | NaN

type_synonym name_table = "string \<Rightarrow> cell list option"

definition column :: "name_table \<Rightarrow> string \<Rightarrow> error + cell list" where
  "column t label = (case t label of None \<Rightarrow> Inl KeyError | Some cells \<Rightarrow> Inr cells)"

definition at0 :: "cell list \<Rightarrow> error + cell" where
  "at0 cells = (case cells of [] \<Rightarrow> Inl KeyError | c # _ \<Rightarrow> Inr c)"

definition cell_plus_str :: "cell \<Rightarrow> string \<Rightarrow> error + string" where
  "cell_plus_str c s = (case c of Str a \<Rightarrow> Inr (a @ s) | NaN \<Rightarrow> Inl TypeError)"

definition str_plus_cell :: "string \<Rightarrow> cell \<Rightarrow> error + string" where
  "str_plus_cell s c = (case c of Str b \<Rightarrow> Inr (s @ b) | NaN \<Rightarrow> Inl TypeError)"

definition pid2name :: "(int \<Rightarrow> error + name_table) \<Rightarrow> int \<Rightarrow> string" where
  "pid2name lookup p =
     (case try_bind (lookup p) (\<lambda>t.
             try_bind (column t ''name_first'') (\<lambda>firsts.
             try_bind (at0 firsts) (\<lambda>first.
             try_bind (cell_plus_str first '' '') (\<lambda>s.
             try_bind (column t ''name_last'') (\<lambda>lasts.
             try_bind (at0 lasts) (\<lambda>last.
             str_plus_cell s last))))))
      of Inr name \<Rightarrow> name
       | Inl _ \<Rightarrow> str_int p)"

text \<open>The column function \<open>lambda x: pid2name(x) if pd.notna(x) else ''\<close>.\<close>

definition name_or_blank :: "(int \<Rightarrow> error + name_table) \<Rightarrow> int option \<Rightarrow> string" where
  "name_or_blank lookup x = (case x of Some p \<Rightarrow> pid2name lookup p | None \<Rightarrow> '''')"

section \<open>Publication time\<close>

text \<open>
  A pandas timestamp is \<open>NaT\<close> or wall-clock fields with an optional zone; \<open>tz = None\<close> is a
  naive timestamp. \<open>pd.to_datetime\<close> and the zone database are external: the model takes
  the parser \<open>to_datetime\<close> and the conversion \<open>zone_db\<close> (target zone, aware timestamp,
  giving the wall clock in the target zone) as parameters, each returning a value or
  raising.
\<close>

record stamp =
  year :: nat
  month :: nat
  day :: nat
  hour :: nat
  minute :: nat
  second :: nat
  tz :: "string option"

datatype timestamp = NaT | Timestamp stamp

text \<open>\<open>tz_localize\<close> attaches a zone to a naive timestamp and raises on an aware one.\<close>

definition tz_localize :: "string \<Rightarrow> timestamp \<Rightarrow> error + timestamp" where
  "tz_localize zone ts =
     (case ts of
        NaT \<Rightarrow> Inr NaT
      | Timestamp s \<Rightarrow>
          (case tz s of
             None \<Rightarrow> Inr (Timestamp (s\<lparr>tz := Some zone\<rparr>))
           | Some _ \<Rightarrow> Inl TypeError))"

text \<open>\<open>tz_convert\<close> moves an aware timestamp to another zone and raises on a naive one.\<close>

definition tz_convert ::
  "(string \<Rightarrow> stamp \<Rightarrow> error + stamp) \<Rightarrow> string \<Rightarrow> timestamp \<Rightarrow> error + timestamp" where
  "tz_convert zone_db zone ts =
     (case ts of
        NaT \<Rightarrow> Inr NaT
      | Timestamp s \<Rightarrow>
          (case tz s of
             None \<Rightarrow> Inl TypeError
           | Some _ \<Rightarrow>
               (case zone_db zone s of Inl e \<Rightarrow> Inl e | Inr s' \<Rightarrow> Inr (Timestamp s'))))"

text \<open>\<open>strftime("%Y-%m-%d %H:%M EDT")\<close>; \<open>NaT\<close> has no \<open>strftime\<close>.\<close>

definition strftime_pub :: "timestamp \<Rightarrow> error + string" where
  "strftime_pub ts =
     (case ts of
        NaT \<Rightarrow> Inl ValueError
      | Timestamp s \<Rightarrow>
          Inr (zfill 4 (str_nat (year s)) @ ''-'' @ zfill 2 (str_nat (month s)) @ ''-'' @
               zfill 2 (str_nat (day s)) @ '' '' @ zfill 2 (str_nat (hour s)) @ '':'' @
               zfill 2 (str_nat (minute s)) @ '' EDT''))"

text \<open>The body of the \<open>try\<close> block, and the block with its \<open>except Exception\<close> branch.\<close>

definition format_try ::
  "(string \<Rightarrow> error + timestamp) \<Rightarrow> (string \<Rightarrow> stamp \<Rightarrow> error + stamp) \<Rightarrow> string \<Rightarrow> error + string" where
  "format_try to_datetime zone_db pub =
     try_bind (to_datetime pub) (\<lambda>parsed.
     try_bind (tz_localize ''UTC'' parsed) (\<lambda>pub_dt_utc.
     try_bind (tz_convert zone_db ''America/New_York'' pub_dt_utc) (\<lambda>pub_dt_edt.
     strftime_pub pub_dt_edt)))"

definition format_published ::
  "(string \<Rightarrow> error + timestamp) \<Rightarrow> (string \<Rightarrow> stamp \<Rightarrow> error + stamp) \<Rightarrow> string \<Rightarrow> string" where
  "format_published to_datetime zone_db pub =
     (case format_try to_datetime zone_db pub of
        Inr pub_fmt \<Rightarrow> pub_fmt
      | Inl _ \<Rightarrow> take 16 pub)"

section \<open>Event logs\<close>

text \<open>
  A date is (year, month, day), ordered lexicographically, which is the order of the
  calendar; the timestamps of the source that are compared here are all at midnight.
\<close>

type_synonym date = "nat \<times> nat \<times> nat"

definition TOKYO_START :: date where
  "TOKYO_START = (2025, 3, 18)"

definition TOKYO_2 :: date where
  "TOKYO_2 = (2025, 3, 19)"

definition REGULAR_START :: date where
  "REGULAR_START = (2025, 3, 27)"

text \<open>
  A row of the event table. \<open>game_date\<close>, \<open>events\<close>, \<open>pitcher\<close> and \<open>batter\<close> are the
  provider's columns that the code reads (\<open>None\<close> is a missing value), \<open>rest\<close> stands for
  all its other columns. The columns the code adds are \<open>Date\<close>, \<open>HR_No\<close> ('HR No'),
  \<open>K_No\<close> ('K No'), \<open>MM_DD\<close> ('MM-DD'), \<open>Pitcher\<close> and \<open>Batter\<close>; they are \<open>None\<close> in a
  table that does not have them. A table is the list of its rows, in positional order.
\<close>

record 'a row =
  game_date :: date
  events :: "string option"
  pitcher :: "int option"
  batter :: "int option"
  rest :: 'a
  Date :: "date option"
  HR_No :: "nat option"
  K_No :: "nat option"
  MM_DD :: "string option"
  Pitcher :: "string option"
  Batter :: "string option"

text \<open>\<open>df['Date'] = pd.to_datetime(df['game_date'])\<close>.\<close>

definition set_Date :: "'a row \<Rightarrow> 'a row" where
  "set_Date r = r\<lparr>Date := Some (game_date r)\<rparr>"

text \<open>The mask, which both functions compute in the same way.\<close>

definition season_mask :: "string \<Rightarrow> 'a row \<Rightarrow> bool" where
  "season_mask team_abbr r =
     (let tokyo_days = [TOKYO_START, TOKYO_2]
      in if team_abbr \<in> {''LAD'', ''CHC''}
         then Date r \<in> set (map Some tokyo_days) \<or> Date r \<ge> Some REGULAR_START
         else Date r \<ge> Some REGULAR_START)"

text \<open>\<open>strftime('%m-%d')\<close>.\<close>

definition strftime_md :: "date \<Rightarrow> string" where
  "strftime_md d = (case d of (y, m, dd) \<Rightarrow> zfill 2 (str_nat m) @ ''-'' @ zfill 2 (str_nat dd))"

text \<open>
  The code after the provider's answer \<open>df\<close>. \<open>sort_values\<close> stands for
  \<open>.sort_values('Date')\<close>, which the source calls with the default sort kind; it is a
  parameter, and what is known of it is stated where it is used. After
  \<open>reset_index(drop=True)\<close> the index of a row is its position, so \<open>index + 1\<close> is the
  position counted from one.
\<close>

definition filter_hr_log ::
  "('a row list \<Rightarrow> 'a row list) \<Rightarrow> (int \<Rightarrow> error + name_table) \<Rightarrow> string \<Rightarrow> 'a row list \<Rightarrow> 'a row list" where
  "filter_hr_log sort_values lookup team_abbr df =
     (if df = [] then df
      else
        let df1 = map set_Date df;
            df2 = filter (season_mask team_abbr) df1;
            df_hr = sort_values (filter (\<lambda>r. events r = Some ''home_run'') df2)
        in if df_hr = [] then df_hr
           else map (\<lambda>(i, r). r\<lparr>HR_No := Some (i + 1),
                                 MM_DD := map_option strftime_md (Date r),
                                 Pitcher := Some (name_or_blank lookup (pitcher r))\<rparr>)
                  (enumerate 0 df_hr))"

definition filter_k_log ::
  "('a row list \<Rightarrow> 'a row list) \<Rightarrow> (int \<Rightarrow> error + name_table) \<Rightarrow> string \<Rightarrow> 'a row list \<Rightarrow> 'a row list" where
  "filter_k_log sort_values lookup team_abbr df =
     (if df = [] then df
      else
        let df1 = map set_Date df;
            df2 = filter (season_mask team_abbr) df1;
            df_k = sort_values (filter (\<lambda>r. events r = Some ''strikeout'') df2)
        in if df_k = [] then df_k
           else map (\<lambda>(i, r). r\<lparr>K_No := Some (i + 1),
                                 MM_DD := map_option strftime_md (Date r),
                                 Batter := Some (name_or_blank lookup (batter r))\<rparr>)
                  (enumerate 0 df_k))"

text \<open>
  The two functions of the source: the provider (\<open>statcast_batter\<close>, \<open>statcast_pitcher\<close>) is
  asked for the window and the player, which the source passes as text, and its answer is
  filtered.
\<close>

definition fetch_hr_log ::
  "(date \<Rightarrow> date \<Rightarrow> int \<Rightarrow> 'a row list) \<Rightarrow> ('a row list \<Rightarrow> 'a row list) \<Rightarrow>
   (int \<Rightarrow> error + name_table) \<Rightarrow> int \<Rightarrow> date \<Rightarrow> date \<Rightarrow> string \<Rightarrow> 'a row list" where
  "fetch_hr_log statcast_batter sort_values lookup pid start end team_abbr =
     filter_hr_log sort_values lookup team_abbr (statcast_batter start end pid)"

definition fetch_k_log ::
  "(date \<Rightarrow> date \<Rightarrow> int \<Rightarrow> 'a row list) \<Rightarrow> ('a row list \<Rightarrow> 'a row list) \<Rightarrow>
   (int \<Rightarrow> error + name_table) \<Rightarrow> int \<Rightarrow> date \<Rightarrow> date \<Rightarrow> string \<Rightarrow> 'a row list" where
  "fetch_k_log statcast_pitcher sort_values lookup pid start end team_abbr =
     filter_k_log sort_values lookup team_abbr (statcast_pitcher start end pid)"

text \<open>
  What \<open>sort_values\<close> is known to do: given a table with no missing \<open>Date\<close>, it returns
  the rows it was given, in an order in which the \<open>Date\<close> column ascends. A sort is stable
  when rows with equal \<open>Date\<close> keep their order; the default sort kind of the library does
  not promise that.
\<close>

definition sorts_by_Date :: "('a row list \<Rightarrow> 'a row list) \<Rightarrow> bool" where
  "sorts_by_Date sort_values =
     (\<forall>df. (\<forall>r \<in> set df. Date r \<noteq> None) \<longrightarrow>
        mset (sort_values df) = mset df \<and> sorted (map Date (sort_values df)))"


text \<open>The event a row records: the row without the columns the code adds.\<close>

definition raw :: "'a row \<Rightarrow> 'a row" where
  "raw r = r\<lparr>Date := None, HR_No := None, K_No := None, MM_DD := None,
              Pitcher := None, Batter := None\<rparr>"

text \<open>The events the filter retains: inside the mask and of the target type.\<close>

definition retained :: "string \<Rightarrow> string \<Rightarrow> 'a row \<Rightarrow> bool" where
  "retained team_abbr target r =
     (season_mask team_abbr (set_Date r) \<and> events r = Some target)"

text \<open>Two sorts that meet \<open>sorts_by_Date\<close>: one stable, one that reverses equal dates.\<close>

definition stable_sort :: "'a row list \<Rightarrow> 'a row list" where
  "stable_sort df = sort_key Date df"


text \<open>
  The columns each function writes on the row at position \<open>i\<close>, and the shape both
  functions share: annotate, by position, the sorted rows of the target type inside the
  mask.
\<close>

definition annotate_hr :: "(int \<Rightarrow> error + name_table) \<Rightarrow> nat \<Rightarrow> 'a row \<Rightarrow> 'a row" where
  "annotate_hr lookup i r =
     r\<lparr>HR_No := Some (i + 1), MM_DD := map_option strftime_md (Date r),
       Pitcher := Some (name_or_blank lookup (pitcher r))\<rparr>"

definition annotate_k :: "(int \<Rightarrow> error + name_table) \<Rightarrow> nat \<Rightarrow> 'a row \<Rightarrow> 'a row" where
  "annotate_k lookup i r =
     r\<lparr>K_No := Some (i + 1), MM_DD := map_option strftime_md (Date r),
       Batter := Some (name_or_blank lookup (batter r))\<rparr>"

definition kept :: "string \<Rightarrow> string \<Rightarrow> 'a row list \<Rightarrow> 'a row list" where
  "kept team_abbr target df =
     filter (\<lambda>r. events r = Some target) (filter (season_mask team_abbr) (map set_Date df))"

definition log_core ::
  "(nat \<Rightarrow> 'a row \<Rightarrow> 'a row) \<Rightarrow> string \<Rightarrow> ('a row list \<Rightarrow> 'a row list) \<Rightarrow> string \<Rightarrow>
   'a row list \<Rightarrow> 'a row list" where
  "log_core annotate target sort_values team_abbr df =
     map (\<lambda>(i, r). annotate i r) (enumerate 0 (sort_values (kept team_abbr target df)))"

section \<open>Example inputs\<close>

definition a1 :: article where
  "a1 = \<lparr>title = ''Judge homers twice'', link = ''u1'', summary = ''recap'', published = ''Tue''\<rparr>"

definition feed :: "article list" where
  "feed = [a1, a1\<lparr>title := ''Vote now''\<rparr>, a1, a1\<lparr>link := ''u2''\<rparr>, a1\<lparr>link := ''u3''\<rparr>, a1\<lparr>link := ''u4''\<rparr>]"

text \<open>A register that knows one player and answers with an empty table for any other id.\<close>

definition register :: "int \<Rightarrow> error + name_table" where
  "register p =
     (if p = 477132
      then Inr [''name_last'' \<mapsto> [Str ''Kershaw''], ''name_first'' \<mapsto> [Str ''Clayton'']]
      else Inr [''name_last'' \<mapsto> [], ''name_first'' \<mapsto> []])"


definition ev :: "date \<Rightarrow> string \<Rightarrow> int option \<Rightarrow> unit row" where
  "ev d e p = \<lparr>game_date = d, events = Some e, pitcher = p, batter = p, rest = (),
     Date = None, HR_No = None, K_No = None, MM_DD = None, Pitcher = None, Batter = None\<rparr>"

text \<open>
  A parser that answers as the library does on three inputs: a text that names its zone
  gives an aware timestamp, a text without zone a naive one, the empty text \<open>NaT\<close>; it
  raises on anything else. And a zone database for winter days, five hours behind UTC,
  which answers only when that leaves the day as it is.
\<close>

definition aware_parser :: "string \<Rightarrow> error + timestamp" where
  "aware_parser s =
     (if s = ''Tue, 02 Jul 2024 00:13:30 GMT''
      then Inr (Timestamp \<lparr>year = 2024, month = 7, day = 2, hour = 0, minute = 13, second = 30, tz = Some ''UTC''\<rparr>)
      else if s = ''2025-01-15 12:00:00''
      then Inr (Timestamp \<lparr>year = 2025, month = 1, day = 15, hour = 12, minute = 0, second = 0, tz = None\<rparr>)
      else if s = [] then Inr NaT
      else Inl ParserError)"

definition winter_db :: "string \<Rightarrow> stamp \<Rightarrow> error + stamp" where
  "winter_db zone s = (if hour s < 5 then Inl (OtherError ''not covered'') else Inr (s\<lparr>hour := hour s - 5, tz := Some ''EST''\<rparr>))"

text \<open>
  A provider holding the three events of the specification's example scenario, which
  answers with those inside the window asked for.
\<close>

definition opener_table :: "unit row list" where
  "opener_table =
     [ev (2025, 3, 19) ''home_run'' (Some 477132),
      ev (2025, 3, 25) ''strikeout'' (Some 5),
      ev (2025, 3, 28) ''home_run'' None]"

definition opener_feed :: "date \<Rightarrow> date \<Rightarrow> int \<Rightarrow> unit row list" where
  "opener_feed start end pid = filter (\<lambda>r. start \<le> game_date r \<and> game_date r \<le> end) opener_table"


section \<open>Properties of the news filter\<close>



lemma py_in_iff: "py_in kw s \<longleftrightarrow> (\<exists>before after. s = before @ kw @ after)"
proof (induction s)
  case Nil
  then show ?case by auto
next
  case (Cons c cs)
  show ?case
  proof
    assume "py_in kw (c # cs)"
    then consider "prefix kw (c # cs)" | "py_in kw cs" by auto
    then show "\<exists>before after. c # cs = before @ kw @ after"
    proof cases
      case 1
      then obtain after where "c # cs = kw @ after" by (auto simp: prefix_def)
      then have "c # cs = [] @ kw @ after" by simp
      then show ?thesis by blast
    next
      case 2
      with Cons.IH obtain before after where "cs = before @ kw @ after" by blast
      then have "c # cs = (c # before) @ kw @ after" by simp
      then show ?thesis by blast
    qed
  next
    assume "\<exists>before after. c # cs = before @ kw @ after"
    then obtain before after where eq: "c # cs = before @ kw @ after" by blast
    show "py_in kw (c # cs)"
    proof (cases before)
      case Nil
      with eq have "prefix kw (c # cs)" by (simp add: prefix_def)
      then show ?thesis by simp
    next
      case (Cons b bs)
      with eq have "cs = bs @ kw @ after" by simp
      with Cons.IH have "py_in kw cs" by blast
      then show ?thesis by simp
    qed
  qed
qed

lemma strip_empty_iff: "strip s = [] \<longleftrightarrow> (\<forall>c \<in> set s. is_space c)"
proof -
  have "strip s = [] \<longleftrightarrow> (\<forall>c \<in> set (dropWhile is_space s). is_space c)"
    by (simp add: strip_def dropWhile_eq_Nil_conv)
  also have "\<dots> \<longleftrightarrow> dropWhile is_space s = []"
  proof
    assume all: "\<forall>c \<in> set (dropWhile is_space s). is_space c"
    show "dropWhile is_space s = []"
    proof (rule ccontr)
      assume ne: "dropWhile is_space s \<noteq> []"
      then have "\<not> is_space (hd (dropWhile is_space s))" by (rule hd_dropWhile)
      moreover from ne have "hd (dropWhile is_space s) \<in> set (dropWhile is_space s)" by simp
      ultimately show False using all by blast
    qed
  next
    assume "dropWhile is_space s = []"
    then show "\<forall>c \<in> set (dropWhile is_space s). is_space c" by (simp del: dropWhile_eq_Nil_conv)
  qed
  also have "\<dots> \<longleftrightarrow> (\<forall>c \<in> set s. is_space c)"
    by (simp add: dropWhile_eq_Nil_conv)
  finally show ?thesis .
qed

lemma is_valid_news_iff: "is_valid_news a \<longleftrightarrow> \<not> rejected_spec a"
  by (auto simp: is_valid_news_def rejected_spec_def blocklisted_def blank_def Let_def
      teaser_keywords_def py_in_iff strip_empty_iff)

lemma lower_append: "lower (xs @ ys) = lower xs @ lower ys"
  by (simp add: lower_def)

lemma fan_vote_lower: "lower ''Fan Vote: All-Star Game'' = ''fan '' @ ''vote'' @ '': all-star game''"
  by code_simp

lemma fan_vote_rejected: "title a = ''Fan Vote: All-Star Game'' \<Longrightarrow> \<not> is_valid_news a"
proof -
  assume t: "title a = ''Fan Vote: All-Star Game''"
  have "lower (title a @ '' '' @ summary a) = ''fan '' @ ''vote'' @ ('': all-star game'' @ lower ('' '' @ summary a))"
    unfolding lower_append t fan_vote_lower by simp
  then have "py_in ''vote'' (lower (title a @ '' '' @ summary a))"
    unfolding py_in_iff by blast
  then show ?thesis
    by (simp add: is_valid_news_def teaser_keywords_def Let_def)
qed

text \<open>
  C6. An article is rejected exactly when the specification's rejection rule holds of it: a
  blocklisted keyword occurs in the lower-cased combination of title and summary, or both
  are blank. An article titled "Fan Vote: All-Star Game" is rejected whatever its link,
  summary and publication text are.
\<close>

theorem is_valid_news_rejects_iff: "(\<not> is_valid_news a \<longleftrightarrow> rejected_spec a) \<and>
  \<not> is_valid_news \<lparr>title = ''Fan Vote: All-Star Game'', link = l, summary = s, published = p\<rparr>"
  using is_valid_news_iff [of a] fan_vote_rejected [of "\<lparr>title = ''Fan Vote: All-Star Game'', link = l, summary = s, published = p\<rparr>"]
  by simp


theorem is_valid_news_rejects_iff_witness:
  "rejected_spec (a1\<lparr>title := ''Vote now''\<rparr>) \<and> \<not> rejected_spec a1"
proof -
  have "\<not> is_valid_news (a1\<lparr>title := ''Vote now''\<rparr>)" by code_simp
  moreover have "is_valid_news a1" by code_simp
  ultimately show ?thesis
    using is_valid_news_rejects_iff [of "a1\<lparr>title := ''Vote now''\<rparr>"]
      is_valid_news_rejects_iff [of a1]
    by blast
qed

lemma first_by_link_links: "set (map link (first_by_link seen ys)) \<inter> seen = {}"
  by (induction ys arbitrary: seen) auto

lemma first_by_link_distinct: "distinct (map link (first_by_link seen ys))"
proof (induction ys arbitrary: seen)
  case Nil
  then show ?case by simp
next
  case (Cons a ys)
  have "link a \<notin> set (map link (first_by_link (insert (link a) seen) ys))"
    using first_by_link_links [of "insert (link a) seen" ys] by auto
  with Cons show ?case by simp
qed

lemma first_by_link_subseq: "subseq (first_by_link seen ys) ys"
  by (induction ys arbitrary: seen) auto

lemma news_loop_fst:
  "length filtered < 3 \<Longrightarrow> seen = link ` set filtered \<Longrightarrow>
   fst (news_loop xs filtered seen k) =
     take 3 (filtered @ first_by_link seen (filter is_valid_news xs))"
proof (induction xs arbitrary: filtered seen k)
  case Nil
  then show ?case by simp
next
  case (Cons a xs)
  show ?case
  proof (cases "is_valid_news a")
    case False
    with Cons show ?thesis by simp
  next
    case valid: True
    show ?thesis
    proof (cases "link a \<in> seen")
      case True
      with valid Cons show ?thesis by simp
    next
      case False
      show ?thesis
      proof (cases "length (filtered @ [a]) \<ge> 3")
        case True
        with Cons.prems have "length filtered = 2" by simp
        with True False valid Cons.prems show ?thesis by simp
      next
        case short: False
        then have "length (filtered @ [a]) < 3" by simp
        moreover have "insert (link a) seen = link ` set (filtered @ [a])"
          using Cons.prems by auto
        ultimately have "fst (news_loop xs (filtered @ [a]) (insert (link a) seen) (Suc k)) =
          take 3 ((filtered @ [a]) @ first_by_link (insert (link a) seen) (filter is_valid_news xs))"
          by (rule Cons.IH)
        with False valid short show ?thesis by simp
      qed
    qed
  qed
qed


lemma news_loop_snd_bounds:
  "k \<le> snd (news_loop xs filtered seen k) \<and> snd (news_loop xs filtered seen k) \<le> k + length xs"
proof (induction xs arbitrary: filtered seen k)
  case Nil
  then show ?case by simp
next
  case (Cons a xs)
  have ih: "Suc k \<le> snd (news_loop xs f s (Suc k)) \<and> snd (news_loop xs f s (Suc k)) \<le> Suc k + length xs"
    for f s by (rule Cons.IH)
  have "snd (news_loop (a # xs) filtered seen k) = Suc k \<or>
      (\<exists>f s. snd (news_loop (a # xs) filtered seen k) = snd (news_loop xs f s (Suc k)))"
    by (simp add: Let_def) blast
  then show ?case
  proof (elim disjE exE)
    assume e: "snd (news_loop (a # xs) filtered seen k) = Suc k"
    show ?thesis unfolding e by simp
  next
    fix f s
    assume e: "snd (news_loop (a # xs) filtered seen k) = snd (news_loop xs f s (Suc k))"
    from ih [of f s] show ?thesis unfolding e by simp
  qed
qed

lemma news_loop_exhausts:
  "length (fst (news_loop xs filtered seen k)) < 3 \<Longrightarrow>
   snd (news_loop xs filtered seen k) = k + length xs"
  by (induction xs arbitrary: filtered seen k) (auto simp: Let_def split: if_splits)

lemma news_loop_before_stop:
  "length filtered < 3 \<Longrightarrow> j < snd (news_loop xs filtered seen k) - k \<Longrightarrow>
   length (fst (news_loop (take j xs) filtered seen k)) < 3"
proof (induction xs arbitrary: filtered seen k j)
  case Nil
  then show ?case by simp
next
  case (Cons a xs)
  show ?case
  proof (cases j)
    case 0
    with Cons.prems show ?thesis by simp
  next
    case (Suc i)
    show ?thesis
    proof (cases "is_valid_news a")
      case False
      with Cons.prems Suc have "i < snd (news_loop xs filtered seen (Suc k)) - Suc k" by simp
      with Cons.prems(1) have "length (fst (news_loop (take i xs) filtered seen (Suc k))) < 3"
        by (rule Cons.IH)
      with False Suc show ?thesis by simp
    next
      case valid: True
      define f' where "f' = (if link a \<notin> seen then filtered @ [a] else filtered)"
      define s' where "s' = (if link a \<notin> seen then insert (link a) seen else seen)"
      show ?thesis
      proof (cases "length f' \<ge> 3")
        case True
        with valid Cons.prems Suc show ?thesis by (simp add: f'_def Let_def split: if_splits)
      next
        case False
        then have short: "length f' < 3" by simp
        from False valid Cons.prems(2) Suc have "i < snd (news_loop xs f' s' (Suc k)) - Suc k"
          by (simp add: f'_def s'_def Let_def split: if_splits)
        with short have "length (fst (news_loop (take i xs) f' s' (Suc k))) < 3"
          by (rule Cons.IH)
        with False valid Suc show ?thesis by (simp add: f'_def s'_def Let_def split: if_splits)
      qed
    qed
  qed
qed

lemma news_loop_prefix:
  "fst (news_loop (take (snd (news_loop xs filtered seen k) - k) xs) filtered seen k) =
   fst (news_loop xs filtered seen k)"
proof (induction xs arbitrary: filtered seen k)
  case Nil
  then show ?case by simp
next
  case (Cons a xs)
  have ih: "fst (news_loop (take (snd (news_loop xs f s (Suc k)) - Suc k) xs) f s (Suc k)) =
     fst (news_loop xs f s (Suc k))" for f s by (rule Cons.IH)
  have ge: "Suc k \<le> snd (news_loop xs f s (Suc k))" for f s
    using news_loop_snd_bounds [of "Suc k" xs f s] by simp
  have step: "snd (news_loop xs f s (Suc k)) - k = Suc (snd (news_loop xs f s (Suc k)) - Suc k)" for f s
    using ge [of f s] by simp
  show ?case by (simp add: Let_def step ih)
qed


lemma first_by_link_find:
  "a \<in> set (first_by_link seen ys) \<Longrightarrow> find (\<lambda>b. link b = link a) ys = Some a"
proof (induction ys arbitrary: seen)
  case Nil
  then show ?case by simp
next
  case (Cons y ys)
  show ?case
  proof (cases "link y \<in> seen")
    case True
    with Cons.prems have mem: "a \<in> set (first_by_link seen ys)" by simp
    then have "link a \<in> set (map link (first_by_link seen ys))" by simp
    with first_by_link_links [of seen ys] have "link a \<notin> seen" by blast
    with True have "link y \<noteq> link a" by auto
    with Cons.IH [OF mem] show ?thesis by simp
  next
    case False
    with Cons.prems consider "a = y" | "a \<in> set (first_by_link (insert (link y) seen) ys)" by auto
    then show ?thesis
    proof cases
      case 1
      then show ?thesis by simp
    next
      case 2
      then have "link a \<in> set (map link (first_by_link (insert (link y) seen) ys))" by simp
      with first_by_link_links [of "insert (link y) seen" ys] have "link y \<noteq> link a" by auto
      with Cons.IH [OF 2] show ?thesis by simp
    qed
  qed
qed

lemma find_filter: "find P (filter Q xs) = find (\<lambda>x. Q x \<and> P x) xs"
  by (induction xs) auto

lemma filter_news_eq: "filter_news news = take 3 (first_by_link {} (filter is_valid_news news))"
  using news_loop_fst [of "[]" "{}" news 0] by (simp add: filter_news_def)

text \<open>
  C5. The news loop returns pairwise distinct links, at most three articles, in the order
  of the feed; the result is the first three of the valid articles that are the first
  valid ones with their link. The loop reads no article after the one that brings the
  result to three: up to any earlier point fewer than three were accepted, and a feed that
  yields fewer than three is read to its end.
\<close>

theorem news_filter_dedupe_bound_stop:
  "distinct (map link (filter_news news)) \<and>
   length (filter_news news) \<le> 3 \<and>
   subseq (filter_news news) news \<and>
   filter_news news = take 3 (first_by_link {} (filter is_valid_news news)) \<and>
   (\<forall>a \<in> set (filter_news news).
      find (\<lambda>b. is_valid_news b \<and> link b = link a) news = Some a) \<and>
   consumed news \<le> length news \<and>
   filter_news (take (consumed news) news) = filter_news news \<and>
   (length (filter_news news) < 3 \<longrightarrow> consumed news = length news) \<and>
   (\<forall>j < consumed news. length (filter_news (take j news)) < 3)"
proof (intro conjI)
  show "distinct (map link (filter_news news))"
    unfolding filter_news_eq take_map [symmetric]
    by (rule distinct_take) (rule first_by_link_distinct)
  show "length (filter_news news) \<le> 3"
    unfolding filter_news_eq by simp
  have "subseq (take 3 (first_by_link {} (filter is_valid_news news)))
          (first_by_link {} (filter is_valid_news news))"
    by (metis append_take_drop_id prefix_def prefix_imp_subseq)
  also have "subseq \<dots> (filter is_valid_news news)"
    by (rule first_by_link_subseq)
  also have "subseq \<dots> news"
    by simp
  finally show "subseq (filter_news news) news"
    unfolding filter_news_eq .
  show "filter_news news = take 3 (first_by_link {} (filter is_valid_news news))"
    by (rule filter_news_eq)
  show "\<forall>a \<in> set (filter_news news).
      find (\<lambda>b. is_valid_news b \<and> link b = link a) news = Some a"
  proof
    fix a
    assume "a \<in> set (filter_news news)"
    then have "a \<in> set (first_by_link {} (filter is_valid_news news))"
      unfolding filter_news_eq by (rule in_set_takeD)
    then have "find (\<lambda>b. link b = link a) (filter is_valid_news news) = Some a"
      by (rule first_by_link_find)
    then show "find (\<lambda>b. is_valid_news b \<and> link b = link a) news = Some a"
      by (simp add: find_filter)
  qed
  show "consumed news \<le> length news"
    using news_loop_snd_bounds [of 0 news "[]" "{}"] by (simp add: consumed_def)
  show "filter_news (take (consumed news) news) = filter_news news"
    using news_loop_prefix [of news "[]" "{}" 0] by (simp add: filter_news_def consumed_def)
  show "length (filter_news news) < 3 \<longrightarrow> consumed news = length news"
    using news_loop_exhausts [of news "[]" "{}" 0] by (simp add: filter_news_def consumed_def)
  show "\<forall>j < consumed news. length (filter_news (take j news)) < 3"
    using news_loop_before_stop [of "[]" _ news "{}" 0] by (simp add: filter_news_def consumed_def)
qed

theorem news_filter_dedupe_bound_stop_witness:
  "filter_news feed = [a1, a1\<lparr>link := ''u2''\<rparr>, a1\<lparr>link := ''u3''\<rparr>] \<and>
   consumed feed = 5 \<and> length (filter_news (take 4 feed)) < 3"
proof -
  have c: "consumed feed = 5" by code_simp
  have f: "filter_news feed = [a1, a1\<lparr>link := ''u2''\<rparr>, a1\<lparr>link := ''u3''\<rparr>]" by code_simp
  from news_filter_dedupe_bound_stop [of feed]
  have "\<forall>j < consumed feed. length (filter_news (take j feed)) < 3"
    by blast
  with c have "length (filter_news (take 4 feed)) < 3" by simp
  with c f show ?thesis by blast
qed

section \<open>Properties of name resolution\<close>









section \<open>Properties of the publication time\<close>

lemmas format_defs = format_published_def format_try_def try_bind_def tz_localize_def
  tz_convert_def strftime_pub_def

lemma format_try_naive:
  "to_datetime pub = Inr (Timestamp s) \<Longrightarrow> tz s = None \<Longrightarrow>
   zone_db ''America/New_York'' (s\<lparr>tz := Some ''UTC''\<rparr>) = Inr s' \<Longrightarrow>
   format_try to_datetime zone_db pub =
     Inr (zfill 4 (str_nat (year s')) @ ''-'' @ zfill 2 (str_nat (month s')) @ ''-'' @
          zfill 2 (str_nat (day s')) @ '' '' @ zfill 2 (str_nat (hour s')) @ '':'' @
          zfill 2 (str_nat (minute s')) @ '' EDT'')"
  by (simp add: format_defs)

lemma format_try_Inr:
  "format_try to_datetime zone_db pub = Inr out \<Longrightarrow>
   \<exists>s s'. to_datetime pub = Inr (Timestamp s) \<and> tz s = None \<and>
     zone_db ''America/New_York'' (s\<lparr>tz := Some ''UTC''\<rparr>) = Inr s' \<and>
     out = zfill 4 (str_nat (year s')) @ ''-'' @ zfill 2 (str_nat (month s')) @ ''-'' @
          zfill 2 (str_nat (day s')) @ '' '' @ zfill 2 (str_nat (hour s')) @ '':'' @
          zfill 2 (str_nat (minute s')) @ '' EDT''"
  by (auto simp: format_defs split: sum.splits timestamp.splits option.splits)

lemma format_try_parse_error: "to_datetime pub = Inl e \<Longrightarrow> \<exists>e'. format_try to_datetime zone_db pub = Inl e'"
  by (simp add: format_defs)

lemma format_try_NaT: "to_datetime pub = Inr NaT \<Longrightarrow> \<exists>e'. format_try to_datetime zone_db pub = Inl e'"
  by (simp add: format_defs)

lemma format_try_aware:
  "to_datetime pub = Inr (Timestamp s) \<Longrightarrow> tz s \<noteq> None \<Longrightarrow>
   format_try to_datetime zone_db pub = Inl TypeError"
  by (auto simp: format_defs)

lemma format_try_zone_error:
  "to_datetime pub = Inr (Timestamp s) \<Longrightarrow> tz s = None \<Longrightarrow>
   zone_db ''America/New_York'' (s\<lparr>tz := Some ''UTC''\<rparr>) = Inl e \<Longrightarrow>
   format_try to_datetime zone_db pub = Inl e"
  by (simp add: format_defs)

lemma format_published_Inl:
  "format_try to_datetime zone_db pub = Inl e \<Longrightarrow> format_published to_datetime zone_db pub = take 16 pub"
  by (simp add: format_published_def)

lemma format_published_Inr:
  "format_try to_datetime zone_db pub = Inr out \<Longrightarrow> format_published to_datetime zone_db pub = out"
  by (simp add: format_published_def)



text \<open>
  C8. Whenever the body of the \<open>try\<close> block raises, the result is the first sixteen
  characters of the text as given: when the parser raises, when it gives \<open>NaT\<close>, when it
  gives an aware timestamp, and when the zone conversion raises. The text "not-a-date", on
  which the parser raises, is returned whole. The result is a text in every case.
\<close>

theorem format_published_fallback:
  "((\<forall>out. format_try to_datetime zone_db pub \<noteq> Inr out)
      \<longrightarrow> format_published to_datetime zone_db pub = take 16 pub) \<and>
   (to_datetime pub = Inl e \<longrightarrow> format_published to_datetime zone_db pub = take 16 pub) \<and>
   (to_datetime pub = Inr NaT \<longrightarrow> format_published to_datetime zone_db pub = take 16 pub) \<and>
   (to_datetime pub = Inr (Timestamp s) \<and> tz s \<noteq> None
      \<longrightarrow> format_published to_datetime zone_db pub = take 16 pub) \<and>
   (to_datetime pub = Inr (Timestamp s) \<and> tz s = None \<and>
    zone_db ''America/New_York'' (s\<lparr>tz := Some ''UTC''\<rparr>) = Inl e
      \<longrightarrow> format_published to_datetime zone_db pub = take 16 pub) \<and>
   (to_datetime ''not-a-date'' = Inl e
      \<longrightarrow> format_published to_datetime zone_db ''not-a-date'' = ''not-a-date'')"
proof (intro conjI impI)
  assume "\<forall>out. format_try to_datetime zone_db pub \<noteq> Inr out"
  then obtain e' where "format_try to_datetime zone_db pub = Inl e'"
    by (cases "format_try to_datetime zone_db pub") auto
  then show "format_published to_datetime zone_db pub = take 16 pub"
    by (rule format_published_Inl)
next
  assume "to_datetime pub = Inl e"
  then obtain e' where "format_try to_datetime zone_db pub = Inl e'"
    using format_try_parse_error by blast
  then show "format_published to_datetime zone_db pub = take 16 pub"
    by (rule format_published_Inl)
next
  assume "to_datetime pub = Inr NaT"
  then obtain e' where "format_try to_datetime zone_db pub = Inl e'"
    using format_try_NaT by blast
  then show "format_published to_datetime zone_db pub = take 16 pub"
    by (rule format_published_Inl)
next
  assume "to_datetime pub = Inr (Timestamp s) \<and> tz s \<noteq> None"
  then have "format_try to_datetime zone_db pub = Inl TypeError"
    using format_try_aware by blast
  then show "format_published to_datetime zone_db pub = take 16 pub"
    by (rule format_published_Inl)
next
  assume "to_datetime pub = Inr (Timestamp s) \<and> tz s = None \<and>
    zone_db ''America/New_York'' (s\<lparr>tz := Some ''UTC''\<rparr>) = Inl e"
  then have "format_try to_datetime zone_db pub = Inl e"
    using format_try_zone_error by blast
  then show "format_published to_datetime zone_db pub = take 16 pub"
    by (rule format_published_Inl)
next
  assume "to_datetime ''not-a-date'' = Inl e"
  then obtain e' where "format_try to_datetime zone_db ''not-a-date'' = Inl e'"
    using format_try_parse_error by blast
  then have "format_published to_datetime zone_db ''not-a-date'' = take 16 ''not-a-date''"
    by (rule format_published_Inl)
  then show "format_published to_datetime zone_db ''not-a-date'' = ''not-a-date''"
    by simp
qed

theorem format_published_fallback_witness:
  "aware_parser ''not-a-date'' = Inl ParserError \<and>
   format_published aware_parser winter_db ''not-a-date'' = ''not-a-date'' \<and>
   aware_parser ''garbled text longer than sixteen'' = Inl ParserError \<and>
   format_published aware_parser winter_db ''garbled text longer than sixteen'' = ''garbled text lon''"
proof -
  have p1: "aware_parser ''not-a-date'' = Inl ParserError"
    by (simp add: aware_parser_def)
  have p2: "aware_parser ''garbled text longer than sixteen'' = Inl ParserError"
    by (simp add: aware_parser_def)
  from p1 format_published_fallback [where to_datetime = aware_parser and zone_db = winter_db
      and e = ParserError and pub = "''not-a-date''"]
  have 1: "format_published aware_parser winter_db ''not-a-date'' = ''not-a-date''"
    by blast
  from p2 format_published_fallback [where to_datetime = aware_parser and zone_db = winter_db
      and e = ParserError and pub = "''garbled text longer than sixteen''"]
  have "format_published aware_parser winter_db ''garbled text longer than sixteen''
      = take 16 ''garbled text longer than sixteen''"
    by blast
  then have 2: "format_published aware_parser winter_db ''garbled text longer than sixteen''
      = ''garbled text lon''"
    by simp
  from p1 1 p2 2 show ?thesis by (intro conjI)
qed

text \<open>
  C10. Whenever the body of the \<open>try\<close> block returns, the result ends in the literal
  " EDT". It is made of the wall-clock fields of the converted timestamp alone, whatever
  zone name that timestamp carries; so a winter day, which the zone database puts in
  standard time, is labelled EDT as well.
\<close>

theorem format_published_suffix_EDT:
  "(format_try to_datetime zone_db pub = Inr out
      \<longrightarrow> format_published to_datetime zone_db pub = out \<and> suffix '' EDT'' out) \<and>
   (to_datetime pub = Inr (Timestamp s) \<and> tz s = None \<and>
    zone_db ''America/New_York'' (s\<lparr>tz := Some ''UTC''\<rparr>) = Inr s'
      \<longrightarrow> format_published to_datetime zone_db pub =
            zfill 4 (str_nat (year s')) @ ''-'' @ zfill 2 (str_nat (month s')) @ ''-'' @
            zfill 2 (str_nat (day s')) @ '' '' @ zfill 2 (str_nat (hour s')) @ '':'' @
            zfill 2 (str_nat (minute s')) @ '' EDT'')"
proof (intro conjI impI)
  assume ok: "format_try to_datetime zone_db pub = Inr out"
  then show "format_published to_datetime zone_db pub = out"
    by (rule format_published_Inr)
  from format_try_Inr [OF ok] obtain body where "out = body @ '' EDT''"
    by (metis append.assoc)
  then show "suffix '' EDT'' out"
    by (simp add: suffix_def)
next
  assume a: "to_datetime pub = Inr (Timestamp s) \<and> tz s = None \<and>
    zone_db ''America/New_York'' (s\<lparr>tz := Some ''UTC''\<rparr>) = Inr s'"
  then have "format_try to_datetime zone_db pub =
     Inr (zfill 4 (str_nat (year s')) @ ''-'' @ zfill 2 (str_nat (month s')) @ ''-'' @
          zfill 2 (str_nat (day s')) @ '' '' @ zfill 2 (str_nat (hour s')) @ '':'' @
          zfill 2 (str_nat (minute s')) @ '' EDT'')"
    using format_try_naive by blast
  then show "format_published to_datetime zone_db pub =
            zfill 4 (str_nat (year s')) @ ''-'' @ zfill 2 (str_nat (month s')) @ ''-'' @
            zfill 2 (str_nat (day s')) @ '' '' @ zfill 2 (str_nat (hour s')) @ '':'' @
            zfill 2 (str_nat (minute s')) @ '' EDT''"
    by (rule format_published_Inr)
qed

theorem format_published_suffix_EDT_witness:
  "winter_db ''America/New_York''
     \<lparr>year = 2025, month = 1, day = 15, hour = 12, minute = 0, second = 0, tz = Some ''UTC''\<rparr>
     = Inr \<lparr>year = 2025, month = 1, day = 15, hour = 7, minute = 0, second = 0, tz = Some ''EST''\<rparr> \<and>
   format_published aware_parser winter_db ''2025-01-15 12:00:00'' = ''2025-01-15 07:00 EDT''"
proof -
  let ?s = "\<lparr>year = 2025, month = 1, day = 15, hour = 12, minute = 0, second = 0, tz = None\<rparr>"
  let ?s' = "\<lparr>year = 2025, month = 1, day = 15, hour = 7, minute = 0, second = 0, tz = Some ''EST''\<rparr>"
  have p: "aware_parser ''2025-01-15 12:00:00'' = Inr (Timestamp ?s)"
    by (simp add: aware_parser_def)
  have z: "winter_db ''America/New_York'' (?s\<lparr>tz := Some ''UTC''\<rparr>) = Inr ?s'"
    by (simp add: winter_db_def)
  from p z format_published_suffix_EDT [where to_datetime = aware_parser and zone_db = winter_db
      and pub = "''2025-01-15 12:00:00''" and s = ?s and s' = ?s', THEN conjunct2]
  have "format_published aware_parser winter_db ''2025-01-15 12:00:00'' =
            zfill 4 (str_nat (year ?s')) @ ''-'' @ zfill 2 (str_nat (month ?s')) @ ''-'' @
            zfill 2 (str_nat (day ?s')) @ '' '' @ zfill 2 (str_nat (hour ?s')) @ '':'' @
            zfill 2 (str_nat (minute ?s')) @ '' EDT''"
    by simp
  then have "format_published aware_parser winter_db ''2025-01-15 12:00:00'' = ''2025-01-15 07:00 EDT''"
    by (simp add: zfill_def str_nat.simps digit_char_def)
  with z show ?thesis by simp
qed

section \<open>Properties of the event logs\<close>

lemma sorts_by_Date_mset:
  "sorts_by_Date srt \<Longrightarrow> \<forall>r \<in> set df. Date r \<noteq> None \<Longrightarrow> mset (srt df) = mset df"
  by (simp add: sorts_by_Date_def)



lemma sorts_by_Date_length:
  "sorts_by_Date srt \<Longrightarrow> \<forall>r \<in> set df. Date r \<noteq> None \<Longrightarrow> length (srt df) = length df"
  using sorts_by_Date_mset [of srt df] by (metis size_mset)

lemma sorts_by_Date_Nil: "sorts_by_Date srt \<Longrightarrow> srt [] = []"
  using sorts_by_Date_length [of srt "[]"] by simp

lemma stable_sort_sorts: "sorts_by_Date stable_sort"
  by (simp add: sorts_by_Date_def stable_sort_def)




lemma raw_set_Date [simp]: "raw (set_Date r) = raw r"
  by (simp add: raw_def set_Date_def)

lemma raw_fields [simp]:
  "game_date (raw r) = game_date r" "events (raw r) = events r"
  "pitcher (raw r) = pitcher r" "batter (raw r) = batter r"
  by (simp_all add: raw_def)

lemma set_Date_fields [simp]:
  "game_date (set_Date r) = game_date r" "events (set_Date r) = events r"
  "Date (set_Date r) = Some (game_date r)"
  by (simp_all add: set_Date_def)

lemma kept_eq: "kept team target df = map set_Date (filter (retained team target) df)"
proof -
  have eq: "retained team target = (\<lambda>r. season_mask team (set_Date r) \<and> events r = Some target)"
    by (rule ext) (simp add: retained_def)
  show ?thesis
    unfolding kept_def eq by (simp add: filter_map o_def conj_commute)
qed

lemma kept_row:
  "r \<in> set (kept team target df) \<Longrightarrow>
   Date r = Some (game_date r) \<and> season_mask team r \<and> events r = Some target"
  by (auto simp: kept_def)

lemma kept_dated: "\<forall>r \<in> set (kept team target df). Date r \<noteq> None"
  using kept_row [of _ team target df] by auto

lemma filter_hr_log_core:
  "sorts_by_Date srt \<Longrightarrow>
   filter_hr_log srt lookup team df = log_core (annotate_hr lookup) ''home_run'' srt team df"
  by (auto simp: filter_hr_log_def log_core_def kept_def Let_def annotate_hr_def
      sorts_by_Date_Nil)

lemma filter_k_log_core:
  "sorts_by_Date srt \<Longrightarrow>
   filter_k_log srt lookup team df = log_core (annotate_k lookup) ''strikeout'' srt team df"
  by (auto simp: filter_k_log_def log_core_def kept_def Let_def annotate_k_def
      sorts_by_Date_Nil)

lemma map_annotated:
  assumes a: "\<And>i r. f (annotate i r) = f r"
  shows "map f (map (\<lambda>(i, r). annotate i r) (enumerate n xs)) = map f xs"
proof -
  have "map (\<lambda>p. f (case p of (i, r) \<Rightarrow> annotate i r)) (enumerate n xs)
      = map (\<lambda>p. f (snd p)) (enumerate n xs)"
    by (rule map_cong) (auto simp: a)
  also have "\<dots> = map f (map snd (enumerate n xs))"
    by (simp only: map_map o_def)
  also have "\<dots> = map f xs"
    by simp
  finally show ?thesis by (simp only: map_map o_def)
qed

lemma core_raw:
  assumes ok: "sorts_by_Date srt" and a: "\<And>i r. raw (annotate i r) = raw r"
  shows "map raw (log_core annotate target srt team df) = map raw (srt (kept team target df))"
  unfolding log_core_def using a by (rule map_annotated)

lemma core_mset_raw:
  assumes ok: "sorts_by_Date srt" and a: "\<And>i r. raw (annotate i r) = raw r"
  shows "mset (map raw (log_core annotate target srt team df))
       = mset (map raw (filter (retained team target) df))"
proof -
  have "mset (map raw (log_core annotate target srt team df))
      = image_mset raw (mset (srt (kept team target df)))"
    using core_raw [OF ok a] by simp
  also have "\<dots> = image_mset raw (mset (kept team target df))"
    using ok by (simp add: sorts_by_Date_mset kept_dated)
  also have "\<dots> = mset (map raw (filter (retained team target) df))"
    by (simp add: kept_eq o_def del: mset_map flip: mset_map)
  finally show ?thesis .
qed

lemma core_length:
  assumes ok: "sorts_by_Date srt"
  shows "length (log_core annotate target srt team df) = length (filter (retained team target) df)"
  using sorts_by_Date_length [OF ok kept_dated, of team target df]
  by (simp add: log_core_def kept_eq)

lemma raw_annotate_hr [simp]: "raw (annotate_hr lookup i r) = raw r"
  by (simp add: raw_def annotate_hr_def)

lemma raw_annotate_k [simp]: "raw (annotate_k lookup i r) = raw r"
  by (simp add: raw_def annotate_k_def)

lemma core_set_raw:
  assumes ok: "sorts_by_Date srt" and a: "\<And>i r. raw (annotate i r) = raw r"
  shows "raw ` set (log_core annotate target srt team df)
       = raw ` set (filter (retained team target) df)"
proof -
  have "set (map raw (log_core annotate target srt team df))
      = set (map raw (filter (retained team target) df))"
    using core_mset_raw [OF ok a] by (rule mset_eq_setD)
  then show ?thesis by simp
qed

lemma retained_regular:
  "team \<notin> {''LAD'', ''CHC''} \<Longrightarrow> retained team target r \<Longrightarrow> REGULAR_START \<le> game_date r"
  by (simp add: retained_def season_mask_def)

lemma retained_tokyo:
  "team \<in> {''LAD'', ''CHC''} \<Longrightarrow> game_date r \<in> {TOKYO_START, TOKYO_2} \<Longrightarrow>
   events r = Some target \<Longrightarrow> retained team target r"
  by (auto simp: retained_def season_mask_def)

lemma tokyo_before_regular: "TOKYO_START < REGULAR_START \<and> TOKYO_2 < REGULAR_START"
  by (simp add: TOKYO_START_def TOKYO_2_def REGULAR_START_def)

lemma core_excludes_early:
  assumes ok: "sorts_by_Date srt" and a: "\<And>i r. raw (annotate i r) = raw r"
    and team: "team \<notin> {''LAD'', ''CHC''}" and early: "game_date r < REGULAR_START"
  shows "raw r \<notin> raw ` set (log_core annotate target srt team df)"
proof
  assume "raw r \<in> raw ` set (log_core annotate target srt team df)"
  then have "raw r \<in> raw ` set (filter (retained team target) df)"
    by (simp only: core_set_raw [OF ok a])
  then obtain r0 where r0: "retained team target r0" and eq: "raw r = raw r0"
    by auto
  from eq have "game_date r = game_date r0"
    by (metis raw_fields(1))
  moreover from team r0 have "REGULAR_START \<le> game_date r0"
    by (rule retained_regular)
  ultimately show False using early by simp
qed

lemma core_includes_tokyo:
  assumes ok: "sorts_by_Date srt" and a: "\<And>i r. raw (annotate i r) = raw r"
    and team: "team \<in> {''LAD'', ''CHC''}" and mem: "r \<in> set df"
    and day: "game_date r \<in> {TOKYO_START, TOKYO_2}" and ev: "events r = Some target"
  shows "raw r \<in> raw ` set (log_core annotate target srt team df)"
proof -
  from team day ev have "retained team target r" by (rule retained_tokyo)
  with mem have "raw r \<in> raw ` set (filter (retained team target) df)" by simp
  then show ?thesis by (simp only: core_set_raw [OF ok a])
qed

text \<open>
  C1. Whatever window and player the provider is asked for: for a team other than LAD and
  CHC, no event of the provider's answer that is dated before 2025-03-27 is in the home-run
  log or in the strikeout log. For LAD and CHC, an event of the answer dated 2025-03-18 or
  2025-03-19, which is before that start, is in the log of its type.
\<close>

theorem season_window:
  fixes statcast :: "date \<Rightarrow> date \<Rightarrow> int \<Rightarrow> 'a row list"
  assumes "sorts_by_Date sort_values"
  shows "(team_abbr \<notin> {''LAD'', ''CHC''} \<longrightarrow>
           (\<forall>r \<in> set (statcast start_dt end_dt pid). game_date r < REGULAR_START \<longrightarrow>
              raw r \<notin> raw ` set (fetch_hr_log statcast sort_values lookup pid start_dt end_dt team_abbr) \<and>
              raw r \<notin> raw ` set (fetch_k_log statcast sort_values lookup pid start_dt end_dt team_abbr))) \<and>
         (team_abbr \<in> {''LAD'', ''CHC''} \<longrightarrow>
           (\<forall>r \<in> set (statcast start_dt end_dt pid). game_date r \<in> {TOKYO_START, TOKYO_2} \<longrightarrow>
              game_date r < REGULAR_START \<and>
              (events r = Some ''home_run'' \<longrightarrow>
                 raw r \<in> raw ` set (fetch_hr_log statcast sort_values lookup pid start_dt end_dt team_abbr)) \<and>
              (events r = Some ''strikeout'' \<longrightarrow>
                 raw r \<in> raw ` set (fetch_k_log statcast sort_values lookup pid start_dt end_dt team_abbr))))"
proof (rule conjI)
  note hr = filter_hr_log_core [OF assms] and k = filter_k_log_core [OF assms]
  show "team_abbr \<notin> {''LAD'', ''CHC''} \<longrightarrow>
           (\<forall>r \<in> set (statcast start_dt end_dt pid). game_date r < REGULAR_START \<longrightarrow>
              raw r \<notin> raw ` set (fetch_hr_log statcast sort_values lookup pid start_dt end_dt team_abbr) \<and>
              raw r \<notin> raw ` set (fetch_k_log statcast sort_values lookup pid start_dt end_dt team_abbr))"
    unfolding fetch_hr_log_def fetch_k_log_def hr k
  proof (intro impI ballI conjI)
    fix r :: "'a row"
    assume team: "team_abbr \<notin> {''LAD'', ''CHC''}" and early: "game_date r < REGULAR_START"
    from assms raw_annotate_hr team early
    show "raw r \<notin> raw ` set (log_core (annotate_hr lookup) ''home_run'' sort_values team_abbr
        (statcast start_dt end_dt pid))"
      by (rule core_excludes_early)
    from assms raw_annotate_k team early
    show "raw r \<notin> raw ` set (log_core (annotate_k lookup) ''strikeout'' sort_values team_abbr
        (statcast start_dt end_dt pid))"
      by (rule core_excludes_early)
  qed
  show "team_abbr \<in> {''LAD'', ''CHC''} \<longrightarrow>
           (\<forall>r \<in> set (statcast start_dt end_dt pid). game_date r \<in> {TOKYO_START, TOKYO_2} \<longrightarrow>
              game_date r < REGULAR_START \<and>
              (events r = Some ''home_run'' \<longrightarrow>
                 raw r \<in> raw ` set (fetch_hr_log statcast sort_values lookup pid start_dt end_dt team_abbr)) \<and>
              (events r = Some ''strikeout'' \<longrightarrow>
                 raw r \<in> raw ` set (fetch_k_log statcast sort_values lookup pid start_dt end_dt team_abbr)))"
    unfolding fetch_hr_log_def fetch_k_log_def hr k
  proof (intro impI ballI conjI)
    fix r :: "'a row"
    assume team: "team_abbr \<in> {''LAD'', ''CHC''}" and mem: "r \<in> set (statcast start_dt end_dt pid)"
      and day: "game_date r \<in> {TOKYO_START, TOKYO_2}"
    from day tokyo_before_regular show "game_date r < REGULAR_START"
      by auto
  next
    fix r :: "'a row"
    assume team: "team_abbr \<in> {''LAD'', ''CHC''}" and mem: "r \<in> set (statcast start_dt end_dt pid)"
      and day: "game_date r \<in> {TOKYO_START, TOKYO_2}" and ev: "events r = Some ''home_run''"
    from assms raw_annotate_hr team mem day ev
    show "raw r \<in> raw ` set (log_core (annotate_hr lookup) ''home_run'' sort_values team_abbr
        (statcast start_dt end_dt pid))"
      by (rule core_includes_tokyo)
  next
    fix r :: "'a row"
    assume team: "team_abbr \<in> {''LAD'', ''CHC''}" and mem: "r \<in> set (statcast start_dt end_dt pid)"
      and day: "game_date r \<in> {TOKYO_START, TOKYO_2}" and ev: "events r = Some ''strikeout''"
    from assms raw_annotate_k team mem day ev
    show "raw r \<in> raw ` set (log_core (annotate_k lookup) ''strikeout'' sort_values team_abbr
        (statcast start_dt end_dt pid))"
      by (rule core_includes_tokyo)
  qed
qed

text \<open>The example scenario of the specification, evaluated.\<close>

lemma example_scenario_hr_log:
  "map (\<lambda>r. (game_date r, HR_No r, Pitcher r)) (fetch_hr_log opener_feed stable_sort register 660271 (2025, 3, 1) (2025, 10, 1) ''LAD'')
  = [((2025, 3, 19), Some 1, Some ''Clayton Kershaw''), ((2025, 3, 28), Some 2, Some [])]"
  by code_simp

theorem season_window_witness:
  "sorts_by_Date (stable_sort :: unit row list \<Rightarrow> unit row list) \<and>
   ev (2025, 3, 19) ''home_run'' (Some 477132)
     \<in> set (opener_feed (2025, 3, 1) (2025, 10, 1) 660271) \<and>
   raw (ev (2025, 3, 19) ''home_run'' (Some 477132))
     \<in> raw ` set (fetch_hr_log opener_feed stable_sort register 660271 (2025, 3, 1) (2025, 10, 1) ''LAD'') \<and>
   raw (ev (2025, 3, 19) ''home_run'' (Some 477132))
     \<notin> raw ` set (fetch_hr_log opener_feed stable_sort register 660271 (2025, 3, 1) (2025, 10, 1) ''NYY'')"
proof -
  let ?r = "ev (2025, 3, 19) ''home_run'' (Some 477132)"
  have mem: "?r \<in> set (opener_feed (2025, 3, 1) (2025, 10, 1) 660271)"
    by (simp add: opener_feed_def opener_table_def ev_def)
  have day: "game_date ?r \<in> {TOKYO_START, TOKYO_2}"
    by (simp add: ev_def TOKYO_2_def)
  have early: "game_date ?r < REGULAR_START"
    by (simp add: ev_def REGULAR_START_def)
  have hr: "events ?r = Some ''home_run''"
    by (simp add: ev_def)
  note w = season_window [OF stable_sort_sorts, where statcast = opener_feed and start_dt = "(2025, 3, 1)"
      and end_dt = "(2025, 10, 1)" and pid = 660271 and lookup = register]
  have lad: "''LAD'' \<in> {''LAD'', ''CHC''}" and nyy: "''NYY'' \<notin> {''LAD'', ''CHC''}"
    by simp_all
  note inc = w [where team_abbr = "''LAD''", THEN conjunct2, THEN mp, OF lad, THEN bspec, OF mem,
      THEN mp, OF day, THEN conjunct2, THEN conjunct1, THEN mp, OF hr]
  note exc = w [where team_abbr = "''NYY''", THEN conjunct1, THEN mp, OF nyy, THEN bspec, OF mem,
      THEN mp, OF early, THEN conjunct1]
  from stable_sort_sorts mem inc exc show ?thesis by (intro conjI)
qed

lemma core_seq_no:
  assumes ok: "sorts_by_Date srt" and a: "\<And>i r. no (annotate i r) = Some (i + 1)"
  shows "map no (log_core annotate target srt team df)
       = map Some [1..<Suc (length (filter (retained team target) df))]"
proof -
  let ?S = "srt (kept team target df)"
  have len: "length ?S = length (filter (retained team target) df)"
    using sorts_by_Date_length [OF ok kept_dated, of team target df] by (simp add: kept_eq)
  have "map (\<lambda>p. no (case p of (i, r) \<Rightarrow> annotate i r)) (enumerate 0 ?S)
      = map (\<lambda>p. Some (Suc (fst p))) (enumerate 0 ?S)"
    by (rule map_cong) (auto simp: a)
  also have "\<dots> = map Some (map Suc (map fst (enumerate 0 ?S)))"
    by (simp only: map_map o_def)
  also have "\<dots> = map Some [1..<Suc (length ?S)]"
    by (simp add: map_Suc_upt)
  finally show ?thesis
    by (simp only: log_core_def map_map o_def len)
qed

lemma HR_No_annotate_hr: "HR_No (annotate_hr lookup i r) = Some (i + 1)"
  by (simp add: annotate_hr_def)

lemma K_No_annotate_k: "K_No (annotate_k lookup i r) = Some (i + 1)"
  by (simp add: annotate_k_def)

text \<open>
  C2. The 'HR No' column of the home-run log and the 'K No' column of the strikeout log are
  1, 2, ..., n in this order, where n is the number of events of the provider's answer that
  the filter retains, which is also the number of rows of the log.
\<close>

theorem sequence_numbers:
  fixes statcast :: "date \<Rightarrow> date \<Rightarrow> int \<Rightarrow> 'a row list"
  assumes "sorts_by_Date sort_values"
  shows "map HR_No (fetch_hr_log statcast sort_values lookup pid start_dt end_dt team_abbr)
           = map Some [1..<Suc (length (filter (retained team_abbr ''home_run'')
                                    (statcast start_dt end_dt pid)))] \<and>
         length (fetch_hr_log statcast sort_values lookup pid start_dt end_dt team_abbr)
           = length (filter (retained team_abbr ''home_run'') (statcast start_dt end_dt pid)) \<and>
         map K_No (fetch_k_log statcast sort_values lookup pid start_dt end_dt team_abbr)
           = map Some [1..<Suc (length (filter (retained team_abbr ''strikeout'')
                                    (statcast start_dt end_dt pid)))] \<and>
         length (fetch_k_log statcast sort_values lookup pid start_dt end_dt team_abbr)
           = length (filter (retained team_abbr ''strikeout'') (statcast start_dt end_dt pid))"
  unfolding fetch_hr_log_def fetch_k_log_def filter_hr_log_core [OF assms] filter_k_log_core [OF assms]
  using core_seq_no [OF assms HR_No_annotate_hr] core_seq_no [OF assms K_No_annotate_k]
    core_length [OF assms]
  by (intro conjI)

theorem sequence_numbers_witness:
  "map HR_No (fetch_hr_log opener_feed stable_sort register 660271 (2025, 3, 1) (2025, 10, 1) ''LAD'')
     = [Some 1, Some 2] \<and>
   map game_date (fetch_hr_log opener_feed stable_sort register 660271 (2025, 3, 1) (2025, 10, 1) ''LAD'')
     = [(2025, 3, 19), (2025, 3, 28)]"
proof -
  have n: "length (filter (retained ''LAD'' ''home_run'') (opener_feed (2025, 3, 1) (2025, 10, 1) 660271)) = 2"
    by code_simp
  have "map HR_No (fetch_hr_log opener_feed stable_sort register 660271 (2025, 3, 1) (2025, 10, 1) ''LAD'')
      = map Some [1..<Suc 2]"
    using sequence_numbers [OF stable_sort_sorts, where statcast = opener_feed and lookup = register
        and pid = 660271 and start_dt = "(2025, 3, 1)" and end_dt = "(2025, 10, 1)"
        and team_abbr = "''LAD''", THEN conjunct1]
    unfolding n .
  moreover have "[1..<Suc 2] = [1, 2::nat]" by code_simp
  moreover have "map game_date (fetch_hr_log opener_feed stable_sort register 660271 (2025, 3, 1) (2025, 10, 1) ''LAD'')
     = [(2025, 3, 19), (2025, 3, 28)]"
    by code_simp
  ultimately show ?thesis by simp
qed





















end
